theory Spec2Isabelle
  imports Complex_Main
begin

section \<open>Python values used by the driver\<close>

text \<open>
  The driver (\<^verbatim>\<open>unilabos/devices/heaterstirrer/ika.py\<close>) receives dynamically typed
  arguments. The values it can tell apart are modelled by \<open>pyval\<close>. A Python float is a
  rational number or one of the three special values; rounding to 53 bits is not modelled,
  so \<open>float(n)\<close> of an int is taken as exact. Time is measured in seconds, as a rational.
\<close>

datatype pyfloat = Fin rat | PInf | NInf | NaN

datatype pyval =
    PNone
  | PInt int
  | PFloat pyfloat
  | PStr string
  | PDict "(string \<times> pyval) list"

datatype pyerr =
    ValueError
  | TypeError
  | OverflowError
  | UnicodeEncodeError
  | SerialException
  | SerialTimeoutException
  | AttributeError

text \<open>pyserial declares \<^verbatim>\<open>SerialException(IOError)\<close> and
  \<^verbatim>\<open>SerialTimeoutException(SerialException)\<close>.\<close>

definition is_IOError :: "pyerr \<Rightarrow> bool" where
  "is_IOError e = (e = SerialException \<or> e = SerialTimeoutException)"

text \<open>
  The two builtins whose full behaviour is outside this repository are parameters:
  \<open>float_of_str\<close> is \<^verbatim>\<open>float(s)\<close> on a string (\<open>None\<close> when it raises ValueError),
  \<open>repr_of\<close> is the text \<^verbatim>\<open>str(v)\<close> of a float or of a dict.
\<close>

record builtins =
  float_of_str :: "string \<Rightarrow> pyfloat option"
  repr_of :: "pyval \<Rightarrow> string"

fun py_float :: "builtins \<Rightarrow> pyval \<Rightarrow> pyerr + pyfloat" where
  "py_float bi (PInt n) = Inr (Fin (of_int n))"
| "py_float bi (PFloat x) = Inr x"
| "py_float bi (PStr s) = (case float_of_str bi s of None \<Rightarrow> Inl ValueError | Some x \<Rightarrow> Inr x)"
| "py_float bi PNone = Inl TypeError"
| "py_float bi (PDict d) = Inl TypeError"

definition trunc :: "rat \<Rightarrow> int" where
  "trunc r = (if 0 \<le> r then \<lfloor>r\<rfloor> else \<lceil>r\<rceil>)"

fun py_int :: "pyfloat \<Rightarrow> pyerr + int" where
  "py_int (Fin r) = Inr (trunc r)"
| "py_int NaN = Inl ValueError"
| "py_int PInf = Inl OverflowError"
| "py_int NInf = Inl OverflowError"

text \<open>The expression \<^verbatim>\<open>int(float(x))\<close>.\<close>

definition int_float :: "builtins \<Rightarrow> pyval \<Rightarrow> pyerr + int" where
  "int_float bi v = (case py_float bi v of Inl e \<Rightarrow> Inl e | Inr x \<Rightarrow> py_int x)"

text \<open>\<^verbatim>\<open>x > 0\<close> and \<^verbatim>\<open>max(0.0, x)\<close> on floats; \<open>max\<close> keeps its first argument
  unless the second is greater, so \<open>NaN\<close> gives \<open>0.0\<close>.\<close>

fun py_gt0 :: "pyfloat \<Rightarrow> bool" where
  "py_gt0 (Fin r) = (0 < r)"
| "py_gt0 PInf = True"
| "py_gt0 NInf = False"
| "py_gt0 NaN = False"

definition py_max0 :: "pyfloat \<Rightarrow> pyfloat" where
  "py_max0 x = (if py_gt0 x then x else Fin 0)"

text \<open>\<^verbatim>\<open>try: ... except (ValueError, TypeError): default\<close>.\<close>

definition except_VT :: "pyerr + 'a \<Rightarrow> 'a \<Rightarrow> pyerr + 'a" where
  "except_VT r d =
     (case r of
        Inl e \<Rightarrow> if e = ValueError \<or> e = TypeError then Inr d else Inl e
      | Inr v \<Rightarrow> Inr v)"

subsection \<open>Strings\<close>

definition digit_char :: "nat \<Rightarrow> char" where
  "digit_char d = char_of (48 + d)"

fun digits :: "nat \<Rightarrow> string" where
  "digits n = (if n < 10 then [digit_char n] else digits (n div 10) @ [digit_char (n mod 10)])"

declare digits.simps [simp del]

text \<open>\<^verbatim>\<open>str(n)\<close> of an int.\<close>

definition str_int :: "int \<Rightarrow> string" where
  "str_int n = (if n < 0 then CHR ''-'' # digits (nat (- n)) else digits (nat n))"

fun py_str :: "builtins \<Rightarrow> pyval \<Rightarrow> string" where
  "py_str bi (PStr s) = s"
| "py_str bi PNone = ''None''"
| "py_str bi (PInt n) = str_int n"
| "py_str bi v = repr_of bi v"

definition upper_char :: "char \<Rightarrow> char" where
  "upper_char c =
     (if 97 \<le> (of_char c :: nat) \<and> (of_char c :: nat) \<le> 122
      then char_of ((of_char c :: nat) - 32) else c)"

definition py_upper :: "string \<Rightarrow> string" where
  "py_upper s = map upper_char s"

fun py_join :: "string \<Rightarrow> string list \<Rightarrow> string" where
  "py_join sep [] = []"
| "py_join sep [t] = t"
| "py_join sep (t # ts) = t @ sep @ py_join sep ts"

definition is_ascii :: "char \<Rightarrow> bool" where
  "is_ascii c = ((of_char c :: nat) < 128)"

text \<open>\<^verbatim>\<open>s.encode("ascii")\<close>: tokens are strings of ASCII characters; any other character
  makes the encoding raise.\<close>

definition encode_ascii :: "string \<Rightarrow> pyerr + char list" where
  "encode_ascii s = (if list_all is_ascii s then Inr s else Inl UnicodeEncodeError)"

text \<open>\<^verbatim>\<open>buf.decode("ascii", errors="ignore")\<close> drops the bytes that are not ASCII.\<close>

definition decode_ascii_ignore :: "char list \<Rightarrow> string" where
  "decode_ascii_ignore bs = filter is_ascii bs"

definition is_space :: "char \<Rightarrow> bool" where
  "is_space c = ((of_char c :: nat) \<in> {9, 10, 11, 12, 13, 28, 29, 30, 31, 32})"

definition py_strip :: "string \<Rightarrow> string" where
  "py_strip s = rev (dropWhile is_space (rev (dropWhile is_space s)))"

definition CRLF :: string where
  "CRLF = [char_of (13::nat), char_of (10::nat)]"

section \<open>The serial port and its environment\<close>

text \<open>
  Everything the driver does to the outside is recorded in \<open>world\<close>: the clock, the bytes
  the device will deliver (each with the time it reaches the input buffer, in FIFO order),
  the scripted faults of the port (one entry per attempt, \<open>True\<close> is a failure, an empty
  script is no failure), and the trace of what happened.
\<close>

datatype event =
    Setup string int
  | Tx "char list"
  | Shut
  | Wait pyfloat

record world =
  clock :: rat
  rx :: "(rat \<times> char) list"
  port_faults :: "bool list"
  write_faults :: "bool list"
  trace :: "event list"

definition sleep :: "rat \<Rightarrow> world \<Rightarrow> world" where
  "sleep d w = w\<lparr>clock := clock w + d\<rparr>"

definition arrived :: "rat \<Rightarrow> rat \<times> char \<Rightarrow> bool" where
  "arrived now p = (fst p \<le> now)"

text \<open>\<^verbatim>\<open>Serial.in_waiting\<close> and \<^verbatim>\<open>Serial.reset_input_buffer()\<close>.\<close>

definition in_waiting :: "world \<Rightarrow> nat" where
  "in_waiting w = length (takeWhile (arrived (clock w)) (rx w))"

definition reset_input_buffer :: "world \<Rightarrow> world" where
  "reset_input_buffer w = w\<lparr>rx := dropWhile (arrived (clock w)) (rx w)\<rparr>"

text \<open>
  \<^verbatim>\<open>Serial.read(size)\<close> with a read timeout: it returns as soon as \<open>size\<close> bytes are
  read, or with what it has when the deadline \<open>dl\<close> passes. The result is the bytes, the
  time of return and the bytes still to come.
\<close>

fun read_upto :: "nat \<Rightarrow> rat \<Rightarrow> rat \<Rightarrow> (rat \<times> char) list \<Rightarrow> char list \<times> rat \<times> (rat \<times> char) list" where
  "read_upto 0 dl now xs = ([], now, xs)"
| "read_upto (Suc n) dl now [] = ([], dl, [])"
| "read_upto (Suc n) dl now ((t, b) # xs) =
     (if t \<le> dl
      then (case read_upto n dl (max now t) xs of (bs, now', xs') \<Rightarrow> (b # bs, now', xs'))
      else ([], dl, (t, b) # xs))"

text \<open>pyserial refuses a negative timeout when the port is created, so the wait is
  never negative.\<close>

definition ser_read :: "rat \<Rightarrow> nat \<Rightarrow> world \<Rightarrow> char list \<times> world" where
  "ser_read tmo n w =
     (case read_upto n (clock w + max 0 tmo) (clock w) (rx w) of
        (bs, now', xs') \<Rightarrow> (bs, w\<lparr>clock := now', rx := xs'\<rparr>))"

text \<open>\<^verbatim>\<open>Serial.write(payload)\<close>: a scripted fault is a write timeout.\<close>

definition ser_write :: "char list \<Rightarrow> world \<Rightarrow> (pyerr + unit) \<times> world" where
  "ser_write payload w =
     (case write_faults w of
        True # fs \<Rightarrow> (Inl SerialTimeoutException, w\<lparr>write_faults := fs\<rparr>)
      | False # fs \<Rightarrow> (Inr (), w\<lparr>write_faults := fs, trace := trace w @ [Tx payload]\<rparr>)
      | [] \<Rightarrow> (Inr (), w\<lparr>trace := trace w @ [Tx payload]\<rparr>))"

record serial =
  ser_port :: string
  ser_baud :: int
  ser_timeout :: rat
  is_open :: bool

text \<open>\<^verbatim>\<open>serial.Serial(port, baud, ..., timeout=timeout, write_timeout=2)\<close>.\<close>

definition Serial :: "string \<Rightarrow> int \<Rightarrow> rat \<Rightarrow> world \<Rightarrow> (pyerr + serial) \<times> world" where
  "Serial p b tmo w =
     (if tmo < 0 then (Inl ValueError, w)
      else (case port_faults w of
        True # fs \<Rightarrow> (Inl SerialException, w\<lparr>port_faults := fs\<rparr>)
      | False # fs \<Rightarrow>
          (Inr \<lparr>ser_port = p, ser_baud = b, ser_timeout = tmo, is_open = True\<rparr>,
           w\<lparr>port_faults := fs, trace := trace w @ [Setup p b]\<rparr>)
      | [] \<Rightarrow>
          (Inr \<lparr>ser_port = p, ser_baud = b, ser_timeout = tmo, is_open = True\<rparr>,
           w\<lparr>trace := trace w @ [Setup p b]\<rparr>)))"

section \<open>IkaNamurClient\<close>

record client =
  port :: string
  baud :: int
  timeout :: rat
  ser :: "serial option"

definition new_client :: "string \<Rightarrow> int \<Rightarrow> rat \<Rightarrow> client" where
  "new_client p b tmo = \<lparr>port = p, baud = b, timeout = tmo, ser = None\<rparr>"

text \<open>The test \<^verbatim>\<open>self._ser and self._ser.is_open\<close>.\<close>

definition session_open :: "client \<Rightarrow> bool" where
  "session_open c = (case ser c of None \<Rightarrow> False | Some s \<Rightarrow> is_open s)"

definition open_cli :: "client \<Rightarrow> world \<Rightarrow> (pyerr + unit) \<times> client \<times> world" where
  "open_cli c w =
     (if session_open c then (Inr (), c, w)
      else (case Serial (port c) (baud c) (timeout c) w of
        (Inl e, w') \<Rightarrow> (Inl e, c, w')
      | (Inr s, w') \<Rightarrow> (Inr (), c\<lparr>ser := Some s\<rparr>, sleep (1 / 10) w')))"

definition close_cli :: "client \<Rightarrow> world \<Rightarrow> client \<times> world" where
  "close_cli c w =
     (case ser c of
        None \<Rightarrow> (c, w)
      | Some s \<Rightarrow>
          if is_open s then (c\<lparr>ser := Some (s\<lparr>is_open := False\<rparr>)\<rparr>, w\<lparr>trace := trace w @ [Shut]\<rparr>)
          else (c, w))"

subsection \<open>Facts about reading, for the termination of the loop\<close>


lemma read_upto_shape:
  "read_upto n dl now xs = (bs, now', xs') \<Longrightarrow>
     bs = map snd (take (length bs) xs) \<and> xs' = drop (length bs) xs \<and> length bs \<le> n \<and> length bs \<le> length xs"
proof (induction n dl now xs arbitrary: bs now' xs' rule: read_upto.induct)
  case (1 dl now xs)
  then show ?case by simp
next
  case (2 n dl now)
  then show ?case by simp
next
  case (3 n dl now t b xs)
  show ?case
  proof (cases "t \<le> dl")
    case True
    obtain bs0 n0 xs0 where r: "read_upto n dl (max now t) xs = (bs0, n0, xs0)"
      by (cases "read_upto n dl (max now t) xs") auto
    from 3(1)[OF True r] have ih: "bs0 = map snd (take (length bs0) xs) \<and> xs0 = drop (length bs0) xs \<and> length bs0 \<le> n \<and> length bs0 \<le> length xs" .
    from 3(2) True r have "bs = b # bs0" "xs' = xs0" by auto
    with ih show ?thesis by simp
  next
    case False
    with 3(2) show ?thesis by simp
  qed
qed

lemma read_upto_empty:
  "read_upto (Suc n) dl now xs = ([], now', xs') \<Longrightarrow> xs' = xs \<and> now' = dl"
  by (cases xs) (auto split: if_splits prod.splits)

lemma in_waiting_pos_head:
  "0 < in_waiting w \<Longrightarrow> \<exists>t b xs. rx w = (t, b) # xs \<and> t \<le> clock w"
  by (cases "rx w") (auto simp: in_waiting_def arrived_def split: if_splits)


lemma ser_read_nonempty:
  "0 < in_waiting w \<Longrightarrow> fst (ser_read tmo (Suc n) w) \<noteq> []"
proof -
  assume "0 < in_waiting w"
  then obtain t b xs where h: "rx w = (t, b) # xs" "t \<le> clock w"
    using in_waiting_pos_head by blast
  then have "t \<le> clock w + max 0 tmo" by simp
  with h show ?thesis by (simp add: ser_read_def split: prod.splits)
qed

lemma ser_read_data_shrinks:
  "ser_read tmo n w = (data, w') \<Longrightarrow> data \<noteq> [] \<Longrightarrow> length (rx w') < length (rx w)"
proof -
  assume a: "ser_read tmo n w = (data, w')" and ne: "data \<noteq> []"
  obtain now' xs' where r: "read_upto n (clock w + max 0 tmo) (clock w) (rx w) = (data, now', xs')"
    and w': "w' = w\<lparr>clock := now', rx := xs'\<rparr>"
    using a by (auto simp: ser_read_def split: prod.splits)
  from read_upto_shape[OF r] have "xs' = drop (length data) (rx w)" "length data \<le> length (rx w)"
    by auto
  moreover from ne obtain x ds where "data = x # ds" by (cases data) auto
  ultimately show ?thesis using w' by auto
qed

lemma ser_read_empty:
  "ser_read tmo (Suc n) w = ([], w') \<Longrightarrow> rx w' = rx w \<and> clock w' = clock w + max 0 tmo"
  by (auto simp: ser_read_def split: prod.splits dest!: read_upto_empty)

text \<open>The loop of \<open>send\<close>:
  \<^verbatim>\<open>while time.time() < end or self._ser.in_waiting: ...\<close>\<close>

function read_loop :: "rat \<Rightarrow> rat \<Rightarrow> char list \<Rightarrow> world \<Rightarrow> char list \<times> world" where
  "read_loop deadline tmo buf w =
     (if clock w < deadline \<or> 0 < in_waiting w then
        (case ser_read tmo (if 0 < in_waiting w then in_waiting w else 1) w of
           (data, w') \<Rightarrow>
             if data \<noteq> [] then read_loop deadline tmo (buf @ data) w'
             else read_loop deadline tmo buf (sleep (1 / 50) w'))
      else (buf, w))"
  by pat_completeness auto

termination read_loop
proof (relation "measures [\<lambda>(d, tmo, buf, w). length (rx w), \<lambda>(d, tmo, buf, w). nat \<lceil>(d - clock w) * 50\<rceil>]", goal_cases)
  case 1
  then show ?case by simp
next
  case (2 deadline tmo buf w x1 x2)
  then show ?case
    using ser_read_data_shrinks[of tmo _ w x1 x2] by simp
next
  case (3 deadline tmo buf w x1 x2)
  show ?case
  proof (cases "0 < in_waiting w")
    case True
    then have "Suc (in_waiting w - 1) = in_waiting w" by simp
    with True ser_read_nonempty[of w tmo "in_waiting w - 1"]
    have "fst (ser_read tmo (in_waiting w) w) \<noteq> []" by simp
    moreover from 3 True have "fst (ser_read tmo (in_waiting w) w) = []"
      by (metis fst_conv)
    ultimately show ?thesis by simp
  next
    case False
    with 3 have lt: "clock w < deadline" and r: "ser_read tmo (Suc 0) w = ([], x2)" by auto
    from ser_read_empty[OF r] have e: "rx x2 = rx w" "clock x2 = clock w + max 0 tmo" by auto
    have "\<lceil>(deadline - (clock w + max 0 tmo + 1 / 50)) * 50\<rceil> < \<lceil>(deadline - clock w) * 50\<rceil>"
      by (simp add: algebra_simps ceiling_less_iff) linarith
    moreover have "0 < \<lceil>(deadline - clock w) * 50\<rceil>" using lt by simp
    ultimately show ?thesis using e by (simp add: sleep_def)
  qed
qed

declare read_loop.simps [simp del]

text \<open>\<open>send\<close>: open on demand, frame the command, write it, wait a quarter of a second,
  collect the answer.\<close>

definition send :: "client \<Rightarrow> string list \<Rightarrow> world \<Rightarrow> (pyerr + string) \<times> client \<times> world" where
  "send c tokens w =
     (case (if session_open c then (Inr (), c, w) else open_cli c w) of
        (Inl e, c1, w1) \<Rightarrow> (Inl e, c1, w1)
      | (Inr u, c1, w1) \<Rightarrow>
          (case encode_ascii (py_upper (py_join '' '' tokens) @ CRLF) of
             Inl e \<Rightarrow> (Inl e, c1, w1)
           | Inr payload \<Rightarrow>
               (case ser c1 of
                  None \<Rightarrow> (Inl AttributeError, c1, w1)
                | Some s \<Rightarrow>
                    (case ser_write payload (reset_input_buffer w1) of
                       (Inl e, w2) \<Rightarrow> (Inl e, c1, w2)
                     | (Inr u', w2) \<Rightarrow>
                         (case read_loop (clock (sleep (1 / 4) w2) + timeout c1) (ser_timeout s) []
                                 (sleep (1 / 4) w2) of
                            (buf, w3) \<Rightarrow> (Inr (py_strip (decode_ascii_ignore buf)), c1, w3))))))"

definition read_name :: "client \<Rightarrow> world \<Rightarrow> (pyerr + string) \<times> client \<times> world" where
  "read_name c w = send c [''IN_NAME''] w"

definition read_speed :: "client \<Rightarrow> world \<Rightarrow> (pyerr + string) \<times> client \<times> world" where
  "read_speed c w = send c [''IN_PV_4''] w"

definition read_speed_setpoint :: "client \<Rightarrow> world \<Rightarrow> (pyerr + string) \<times> client \<times> world" where
  "read_speed_setpoint c w = send c [''IN_SP_4''] w"

definition set_speed :: "client \<Rightarrow> int \<Rightarrow> world \<Rightarrow> (pyerr + string) \<times> client \<times> world" where
  "set_speed c rpm w = send c [''OUT_SP_4'', str_int rpm] w"

definition start :: "client \<Rightarrow> world \<Rightarrow> (pyerr + string) \<times> client \<times> world" where
  "start c w = send c [''START_4''] w"

definition stop :: "client \<Rightarrow> world \<Rightarrow> (pyerr + string) \<times> client \<times> world" where
  "stop c w = send c [''STOP_4''] w"

section \<open>HeaterStirrer_IKA\<close>

record facade =
  attr_status :: string
  attr_stir_speed :: pyfloat
  attr_temp_target :: pyfloat
  attr_cli :: client

definition HeaterStirrer_IKA :: "string \<Rightarrow> int \<Rightarrow> rat \<Rightarrow> world \<Rightarrow> (pyerr + facade) \<times> world" where
  "HeaterStirrer_IKA p b tmo w =
     (case open_cli (new_client p b tmo) w of
        (Inl e, c, w') \<Rightarrow> (Inl e, w')
      | (Inr u, c, w') \<Rightarrow>
          (Inr \<lparr>attr_status = ''Idle'', attr_stir_speed = Fin 0, attr_temp_target = Fin 20,
                attr_cli = c\<rparr>, w'))"

text \<open>The property \<open>status\<close> writes \<^verbatim>\<open>_status\<close> and returns it.\<close>

definition status :: "facade \<Rightarrow> string \<times> facade" where
  "status f =
     (let s = (if attr_stir_speed f = Fin 0 then ''Idle'' else ''Running'')
      in (s, f\<lparr>attr_status := s\<rparr>))"

definition stir_speed :: "facade \<Rightarrow> pyfloat" where
  "stir_speed f = attr_stir_speed f"

definition temp_target :: "facade \<Rightarrow> pyfloat" where
  "temp_target f = attr_temp_target f"

definition temp :: "facade \<Rightarrow> pyfloat" where
  "temp f = attr_temp_target f"

definition set_stir_speed :: "builtins \<Rightarrow> pyval \<Rightarrow> facade \<Rightarrow> world \<Rightarrow> (pyerr + unit) \<times> facade \<times> world" where
  "set_stir_speed bi speed f w =
     (case int_float bi speed of
        Inl e \<Rightarrow> (Inl e, f, w)
      | Inr speed_int \<Rightarrow>
          (case set_speed (attr_cli f) speed_int w of
             (Inl e, c1, w1) \<Rightarrow> (Inl e, f\<lparr>attr_cli := c1\<rparr>, w1)
           | (Inr r1, c1, w1) \<Rightarrow>
               (case (if 0 < speed_int then start c1 w1 else stop c1 w1) of
                  (Inl e, c2, w2) \<Rightarrow> (Inl e, f\<lparr>attr_cli := c2\<rparr>, w2)
                | (Inr r2, c2, w2) \<Rightarrow>
                    (Inr (), f\<lparr>attr_cli := c2, attr_stir_speed := Fin (of_int speed_int)\<rparr>, w2))))"

definition set_temp_target :: "builtins \<Rightarrow> pyval \<Rightarrow> facade \<Rightarrow> world \<Rightarrow> (pyerr + unit) \<times> facade \<times> world" where
  "set_temp_target bi tmp f w =
     (case py_float bi tmp of
        Inl e \<Rightarrow> (Inl e, f, w)
      | Inr x \<Rightarrow>
          (case py_int x of
             Inl e \<Rightarrow> (Inl e, f\<lparr>attr_temp_target := x\<rparr>, w)
           | Inr n \<Rightarrow>
               (case send (attr_cli f) [''OUT_SP_1'', str_int n] w of
                  (Inl e, c1, w1) \<Rightarrow> (Inl e, f\<lparr>attr_temp_target := x, attr_cli := c1\<rparr>, w1)
                | (Inr r1, c1, w1) \<Rightarrow>
                    (case send c1 [''START_1''] w1 of
                       (Inl e, c2, w2) \<Rightarrow> (Inl e, f\<lparr>attr_temp_target := x, attr_cli := c2\<rparr>, w2)
                     | (Inr r2, c2, w2) \<Rightarrow>
                         (Inr (), f\<lparr>attr_temp_target := x, attr_cli := c2\<rparr>, w2)))))"

text \<open>\<^verbatim>\<open>vessel.get("id", "")\<close> on a dict, given as its list of items.\<close>

definition extract_vessel_id :: "builtins \<Rightarrow> pyval \<Rightarrow> string" where
  "extract_vessel_id bi vessel =
     (case vessel of
        PDict d \<Rightarrow> py_str bi (case map_of d ''id'' of None \<Rightarrow> PStr [] | Some v \<Rightarrow> v)
      | _ \<Rightarrow> py_str bi vessel)"


definition stop_stir :: "builtins \<Rightarrow> pyval \<Rightarrow> facade \<Rightarrow> world \<Rightarrow> (pyerr + bool) \<times> facade \<times> world" where
  "stop_stir bi vessel f w =
     (let vid = extract_vessel_id bi vessel in
      case set_stir_speed bi (PInt 0) f w of
        (Inl e, f1, w1) \<Rightarrow> (Inl e, f1, w1)
      | (Inr u, f1, w1) \<Rightarrow> (Inr True, f1, w1))"

text \<open>\<^verbatim>\<open>max(0.0, float(x))\<close>.\<close>

definition max0_float :: "builtins \<Rightarrow> pyval \<Rightarrow> pyerr + pyfloat" where
  "max0_float bi v = (case py_float bi v of Inl e \<Rightarrow> Inl e | Inr x \<Rightarrow> Inr (py_max0 x))"

text \<open>\<^verbatim>\<open>await asyncio.sleep(d)\<close>: a wait of infinite length never returns, which is the
  value \<open>None\<close>. \<open>stir\<close> calls it only with a delay greater than 0.\<close>

fun asyncio_sleep :: "pyfloat \<Rightarrow> world \<Rightarrow> world option" where
  "asyncio_sleep (Fin r) w = Some (w\<lparr>clock := clock w + max 0 r, trace := trace w @ [Wait (Fin r)]\<rparr>)"
| "asyncio_sleep PInf w = None"
| "asyncio_sleep NInf w = Some (w\<lparr>trace := trace w @ [Wait NInf]\<rparr>)"
| "asyncio_sleep NaN w = Some (w\<lparr>trace := trace w @ [Wait NaN]\<rparr>)"

definition stir :: "builtins \<Rightarrow> pyval \<Rightarrow> pyval \<Rightarrow> pyval \<Rightarrow> facade \<Rightarrow> world \<Rightarrow> (pyerr + bool) option \<times> facade \<times> world" where
  "stir bi stir_time speed settling_time f w =
     (case except_VT (max0_float bi stir_time) (Fin 0) of
        Inl e \<Rightarrow> (Some (Inl e), f, w)
      | Inr total_stir_seconds \<Rightarrow>
     (case except_VT (int_float bi speed) 0 of
        Inl e \<Rightarrow> (Some (Inl e), f, w)
      | Inr speed_int \<Rightarrow>
     (case except_VT (max0_float bi settling_time) (Fin 0) of
        Inl e \<Rightarrow> (Some (Inl e), f, w)
      | Inr total_settle_seconds \<Rightarrow>
     (case set_stir_speed bi (PInt speed_int) f w of
        (Inl e, f1, w1) \<Rightarrow> (Some (Inl e), f1, w1)
      | (Inr u1, f1, w1) \<Rightarrow>
     (case (if py_gt0 total_stir_seconds then asyncio_sleep total_stir_seconds w1 else Some w1) of
        None \<Rightarrow> (None, f1, w1)
      | Some w2 \<Rightarrow>
     (case set_stir_speed bi (PInt 0) f1 w2 of
        (Inl e, f2, w3) \<Rightarrow> (Some (Inl e), f2, w3)
      | (Inr u2, f2, w3) \<Rightarrow>
     (case (if py_gt0 total_settle_seconds then asyncio_sleep total_settle_seconds w3 else Some w3) of
        None \<Rightarrow> (None, f2, w3)
      | Some w4 \<Rightarrow> (Some (Inr True), f2, w4))))))))"

definition close_facade :: "facade \<Rightarrow> world \<Rightarrow> facade \<times> world" where
  "close_facade f w = (case close_cli (attr_cli f) w of (c, w') \<Rightarrow> (f\<lparr>attr_cli := c\<rparr>, w'))"

text \<open>What was written to the port, the sessions created and the waits of \<open>stir\<close>, read
  off the trace.\<close>

fun written :: "event list \<Rightarrow> char list list" where
  "written [] = []"
| "written (Tx bs # es) = bs # written es"
| "written (e # es) = written es"

fun setups :: "event list \<Rightarrow> nat" where
  "setups [] = 0"
| "setups (Setup p b # es) = Suc (setups es)"
| "setups (e # es) = setups es"

fun waits :: "event list \<Rightarrow> pyfloat list" where
  "waits [] = []"
| "waits (Wait d # es) = d # waits es"
| "waits (e # es) = waits es"

section \<open>Inputs for the examples and the conditions of the theorems\<close>

text \<open>A world in which nothing arrives and nothing fails, and builtins whose \<open>float\<close>
  reads the text \<open>100\<close> and refuses every other string.\<close>

definition quiet_world :: world where
  "quiet_world = \<lparr>clock = 0, rx = [], port_faults = [], write_faults = [], trace = []\<rparr>"

definition demo_builtins :: builtins where
  "demo_builtins =
     \<lparr>float_of_str = (\<lambda>s. if s = ''100'' then Some (Fin 100) else None),
      repr_of = (\<lambda>v. ''?'')\<rparr>"

definition no_faults :: "world \<Rightarrow> bool" where
  "no_faults w = (port_faults w = [] \<and> write_faults w = [])"

text \<open>The client can talk to the device: its session is open or can be opened, and no
  fault is scheduled.\<close>

definition usable :: "client \<Rightarrow> world \<Rightarrow> bool" where
  "usable c w = ((session_open c \<or> 0 \<le> timeout c) \<and> no_faults w)"

text \<open>A sequence of \<open>set_stir_speed\<close> calls; a call that raises leaves the caller with
  the facade as the call left it.\<close>

fun set_stir_speeds :: "builtins \<Rightarrow> pyval list \<Rightarrow> facade \<Rightarrow> world \<Rightarrow> facade \<times> world" where
  "set_stir_speeds bi [] f w = (f, w)"
| "set_stir_speeds bi (v # vs) f w =
     (case set_stir_speed bi v f w of (r, f', w') \<Rightarrow> set_stir_speeds bi vs f' w')"

text \<open>The facade and the world that \<^verbatim>\<open>HeaterStirrer_IKA("COM7", 9600, 1.0)\<close> gives in
  the quiet world.\<close>

definition demo_facade :: facade where
  "demo_facade =
     \<lparr>attr_status = ''Idle'', attr_stir_speed = Fin 0, attr_temp_target = Fin 20,
      attr_cli = \<lparr>port = ''COM7'', baud = 9600, timeout = 1,
                  ser = Some \<lparr>ser_port = ''COM7'', ser_baud = 9600, ser_timeout = 1, is_open = True\<rparr>\<rparr>\<rparr>"

definition demo_world :: world where
  "demo_world = \<lparr>clock = 1 / 10, rx = [], port_faults = [], write_faults = [],
                  trace = [Setup ''COM7'' 9600]\<rparr>"


text \<open>A world past any deadline up to 2 seconds, with two bytes in the input buffer and a
  third still to come.\<close>

definition late_world :: world where
  "late_world = \<lparr>clock = 2, rx = [(3 / 2, CHR ''O''), (19 / 10, CHR ''K''), (5, CHR ''X'')],
                  port_faults = [], write_faults = [], trace = []\<rparr>"

section \<open>Lemmas\<close>

lemma is_ascii_upper_char: "is_ascii c \<Longrightarrow> is_ascii (upper_char c)"
  by (auto simp: is_ascii_def upper_char_def)

lemma ascii_py_upper: "list_all is_ascii s \<Longrightarrow> list_all is_ascii (py_upper s)"
  by (induction s) (auto simp: py_upper_def is_ascii_upper_char)

lemma ascii_py_join:
  "list_all is_ascii sep \<Longrightarrow> list_all (list_all is_ascii) ts \<Longrightarrow> list_all is_ascii (py_join sep ts)"
  by (induction sep ts rule: py_join.induct) auto

lemma ascii_CRLF: "list_all is_ascii CRLF"
  by (simp add: CRLF_def is_ascii_def)

lemma of_char_digit: "d < 10 \<Longrightarrow> (of_char (digit_char d) :: nat) = 48 + d"
  by (simp add: digit_char_def)

lemma digits_range: "c \<in> set (digits n) \<Longrightarrow> 48 \<le> (of_char c :: nat) \<and> (of_char c :: nat) \<le> 57"
proof (induction n rule: digits.induct)
  case (1 n)
  show ?case
  proof (cases "n < 10")
    case True
    with 1(2) have "c = digit_char n" by (simp add: digits.simps[of n])
    with True show ?thesis by (simp add: of_char_digit)
  next
    case False
    with 1(2) have "c \<in> set (digits (n div 10)) \<or> c = digit_char (n mod 10)"
      by (auto simp add: digits.simps[of n])
    then show ?thesis
    proof
      assume "c \<in> set (digits (n div 10))"
      with 1(1) False show ?thesis by simp
    next
      assume "c = digit_char (n mod 10)"
      then show ?thesis by (simp add: of_char_digit)
    qed
  qed
qed

lemma str_int_range:
  "c \<in> set (str_int n) \<Longrightarrow> (of_char c :: nat) = 45 \<or> (48 \<le> (of_char c :: nat) \<and> (of_char c :: nat) \<le> 57)"
  by (auto simp: str_int_def dest: digits_range split: if_splits)

lemma ascii_str_int: "list_all is_ascii (str_int n)"
  unfolding list_all_iff is_ascii_def using str_int_range by fastforce

lemma upper_str_int: "py_upper (str_int n) = str_int n"
  unfolding py_upper_def
proof (rule map_idI)
  fix c assume "c \<in> set (str_int n)"
  from str_int_range[OF this] show "upper_char c = c" by (auto simp: upper_char_def)
qed

lemma py_upper_append: "py_upper (a @ b) = py_upper a @ py_upper b"
  by (simp add: py_upper_def)


lemma written_append: "written (xs @ ys) = written xs @ written ys"
  by (induction xs rule: written.induct) auto

lemma setups_append: "setups (xs @ ys) = setups xs + setups ys"
  by (induction xs rule: setups.induct) auto

lemma waits_append: "waits (xs @ ys) = waits xs @ waits ys"
  by (induction xs rule: waits.induct) auto

lemma ser_read_keeps:
  "ser_read tmo n w = (data, w') \<Longrightarrow>
     trace w' = trace w \<and> port_faults w' = port_faults w \<and> write_faults w' = write_faults w"
  by (auto simp: ser_read_def split: prod.splits)

lemma read_loop_keeps:
  "read_loop d tmo buf w = (buf', w') \<Longrightarrow>
     trace w' = trace w \<and> port_faults w' = port_faults w \<and> write_faults w' = write_faults w"
proof (induction d tmo buf w arbitrary: buf' w' rule: read_loop.induct)
  case (1 d tmo buf w)
  show ?case
  proof (cases "clock w < d \<or> 0 < in_waiting w")
    case False
    with 1(3) show ?thesis by (simp add: read_loop.simps[of d tmo buf w])
  next
    case True
    obtain data w1 where r: "ser_read tmo (if 0 < in_waiting w then in_waiting w else 1) w = (data, w1)"
      by (cases "ser_read tmo (if 0 < in_waiting w then in_waiting w else 1) w") auto
    note k = ser_read_keeps[OF r]
    show ?thesis
    proof (cases "data = []")
      case False
      with True r 1(3) have "read_loop d tmo (buf @ data) w1 = (buf', w')"
        by (simp add: read_loop.simps[of d tmo buf w])
      from 1(1)[OF True r[symmetric] False this] k show ?thesis by simp
    next
      case e: True
      with True r 1(3) have "read_loop d tmo buf (sleep (1 / 50) w1) = (buf', w')"
        by (simp add: read_loop.simps[of d tmo buf w])
      moreover from e have "\<not> data \<noteq> []" by simp
      ultimately have "trace w' = trace (sleep (1 / 50) w1) \<and>
          port_faults w' = port_faults (sleep (1 / 50) w1) \<and>
          write_faults w' = write_faults (sleep (1 / 50) w1)"
        using 1(2)[OF True r[symmetric]] by blast
      with k show ?thesis by (simp add: sleep_def)
    qed
  qed
qed

lemma Serial_ok:
  "Serial p b tmo w = (Inr s, w') \<Longrightarrow>
     is_open s \<and> ser_timeout s = tmo \<and> trace w' = trace w @ [Setup p b] \<and> write_faults w' = write_faults w
     \<and> rx w' = rx w \<and> clock w' = clock w"
  by (auto simp: Serial_def split: if_splits list.splits bool.splits)

lemma session_open_ser: "session_open c \<Longrightarrow> \<exists>s. ser c = Some s \<and> is_open s"
  by (auto simp: session_open_def split: option.splits)

lemma ensure_open_ok:
  assumes "usable c w"
  shows "\<exists>c1 w1. (if session_open c then (Inr (), c, w) else open_cli c w) = (Inr (), c1, w1)
           \<and> session_open c1 \<and> timeout c1 = timeout c \<and> no_faults w1
           \<and> trace w1 = trace w @ (if session_open c then [] else [Setup (port c) (baud c)])"
proof (cases "session_open c")
  case True
  with assms show ?thesis by (simp add: usable_def)
next
  case False
  with assms have t: "0 \<le> timeout c" and nf: "port_faults w = []" "write_faults w = []"
    by (auto simp: usable_def no_faults_def)
  then show ?thesis using False
    by (simp add: open_cli_def Serial_def session_open_def no_faults_def sleep_def)
qed

lemma ser_write_ok:
  "write_faults w = [] \<Longrightarrow> ser_write payload w = (Inr (), w\<lparr>trace := trace w @ [Tx payload]\<rparr>)"
  by (simp add: ser_write_def)

lemma send_ok:
  assumes u: "usable c w" and a: "list_all (list_all is_ascii) tokens"
  shows "\<exists>resp c' w'. send c tokens w = (Inr resp, c', w')
           \<and> session_open c' \<and> usable c' w'
           \<and> trace w' = trace w @ (if session_open c then [] else [Setup (port c) (baud c)])
                           @ [Tx (py_upper (py_join '' '' tokens) @ CRLF)]"
proof -
  from ensure_open_ok[OF u] obtain c1 w1 where
    o: "(if session_open c then (Inr (), c, w) else open_cli c w) = (Inr (), c1, w1)"
    and so: "session_open c1" and nf: "no_faults w1"
    and tr: "trace w1 = trace w @ (if session_open c then [] else [Setup (port c) (baud c)])"
    by blast
  let ?payload = "py_upper (py_join '' '' tokens) @ CRLF"
  have "list_all is_ascii '' ''" by (simp add: is_ascii_def)
  with a have "list_all is_ascii ?payload"
    by (simp add: ascii_py_upper ascii_py_join ascii_CRLF)
  then have enc: "encode_ascii ?payload = Inr ?payload" by (simp add: encode_ascii_def)
  from session_open_ser[OF so] obtain s where s: "ser c1 = Some s" by blast
  let ?w2 = "(reset_input_buffer w1)\<lparr>trace := trace w1 @ [Tx ?payload]\<rparr>"
  from nf have wr: "ser_write ?payload (reset_input_buffer w1) = (Inr (), ?w2)"
    by (simp add: ser_write_def reset_input_buffer_def no_faults_def)
  obtain buf w3 where rl: "read_loop (clock (sleep (1 / 4) ?w2) + timeout c1) (ser_timeout s) [] (sleep (1 / 4) ?w2) = (buf, w3)"
    by (cases "read_loop (clock (sleep (1 / 4) ?w2) + timeout c1) (ser_timeout s) [] (sleep (1 / 4) ?w2)") auto
  from read_loop_keeps[OF rl] nf have k: "trace w3 = trace w1 @ [Tx ?payload]" "no_faults w3"
    by (simp_all add: sleep_def reset_input_buffer_def no_faults_def)
  have "send c tokens w = (Inr (py_strip (decode_ascii_ignore buf)), c1, w3)"
    unfolding send_def using o enc s wr rl by simp
  moreover from so k have "usable c1 w3" by (simp add: usable_def)
  ultimately show ?thesis using so k tr by simp
qed

lemma upper_OUT_SP_4: "py_upper ''OUT_SP_4'' = ''OUT_SP_4''"
  by code_simp
lemma upper_START_4: "py_upper ''START_4'' = ''START_4''"
  by code_simp
lemma upper_STOP_4: "py_upper ''STOP_4'' = ''STOP_4''"
  by code_simp
lemma upper_space: "py_upper '' '' = '' ''"
  by code_simp

lemma set_speed_payload:
  "py_upper (py_join '' '' [''OUT_SP_4'', str_int n]) = ''OUT_SP_4 '' @ str_int n"
proof -
  have "py_join '' '' [''OUT_SP_4'', str_int n] = ''OUT_SP_4'' @ '' '' @ str_int n" by simp
  then have "py_upper (py_join '' '' [''OUT_SP_4'', str_int n])
      = py_upper ''OUT_SP_4'' @ py_upper '' '' @ py_upper (str_int n)"
    by (simp only: py_upper_append)
  also have "\<dots> = ''OUT_SP_4'' @ '' '' @ str_int n"
    by (simp only: upper_OUT_SP_4 upper_space upper_str_int)
  finally show ?thesis by simp
qed

lemma set_stir_speed_ok:
  assumes c: "int_float bi speed = Inr n" and u: "usable (attr_cli f) w"
  shows "\<exists>f' w'. set_stir_speed bi speed f w = (Inr (), f', w')
           \<and> session_open (attr_cli f') \<and> usable (attr_cli f') w'
           \<and> attr_stir_speed f' = Fin (of_int n) \<and> attr_temp_target f' = attr_temp_target f
           \<and> trace w' = trace w
                @ (if session_open (attr_cli f) then [] else [Setup (port (attr_cli f)) (baud (attr_cli f))])
                @ [Tx (''OUT_SP_4 '' @ str_int n @ CRLF),
                   Tx ((if 0 < n then ''START_4'' else ''STOP_4'') @ CRLF)]"
proof -
  have a1: "list_all (list_all is_ascii) [''OUT_SP_4'', str_int n]"
    by (simp add: ascii_str_int) (simp add: is_ascii_def)
  from send_ok[OF u a1] obtain r1 c1 w1 where
    s1: "set_speed (attr_cli f) n w = (Inr r1, c1, w1)" and o1: "session_open c1" and u1: "usable c1 w1"
    and t1: "trace w1 = trace w
                @ (if session_open (attr_cli f) then [] else [Setup (port (attr_cli f)) (baud (attr_cli f))])
                @ [Tx (''OUT_SP_4 '' @ str_int n @ CRLF)]"
    unfolding set_speed_def set_speed_payload by auto
  have a2: "list_all (list_all is_ascii) [if 0 < n then ''START_4'' else ''STOP_4'']"
    by (simp add: is_ascii_def)
  from send_ok[OF u1 a2] o1 obtain r2 c2 w2 where
    s2: "send c1 [if 0 < n then ''START_4'' else ''STOP_4''] w1 = (Inr r2, c2, w2)"
    and o2: "session_open c2" and u2: "usable c2 w2"
    and t2: "trace w2 = trace w1 @ [Tx ((if 0 < n then ''START_4'' else ''STOP_4'') @ CRLF)]"
    using upper_START_4 upper_STOP_4 by (auto split: if_splits)
  from s2 have s2': "(if 0 < n then start c1 w1 else stop c1 w1) = (Inr r2, c2, w2)"
    by (simp add: start_def stop_def split: if_splits)
  have "set_stir_speed bi speed f w =
          (Inr (), f\<lparr>attr_cli := c2, attr_stir_speed := Fin (of_int n)\<rparr>, w2)"
    unfolding set_stir_speed_def using c s1 s2' by simp
  with o2 u2 t1 t2 show ?thesis by simp
qed


lemma demo_facade_constructed:
  "HeaterStirrer_IKA ''COM7'' 9600 1 quiet_world = (Inr demo_facade, demo_world)"
  by (simp add: HeaterStirrer_IKA_def open_cli_def new_client_def session_open_def Serial_def
      quiet_world_def demo_facade_def demo_world_def sleep_def)

lemma demo_usable: "usable (attr_cli demo_facade) demo_world"
  by (simp add: usable_def demo_facade_def demo_world_def session_open_def no_faults_def)

lemma int_float_PInt: "int_float bi (PInt n) = Inr n"
  by (simp add: int_float_def trunc_def)

lemma usable_after_sleep:
  "usable c w \<Longrightarrow> asyncio_sleep (Fin a) w = Some w' \<Longrightarrow> usable c w'"
  by (auto simp: usable_def no_faults_def)

lemma stir_ok:
  assumes u: "usable (attr_cli f) w"
    and ts: "except_VT (max0_float bi t) (Fin 0) = Inr (Fin a)"
    and sp: "except_VT (int_float bi v) 0 = Inr n"
    and st: "except_VT (max0_float bi s) (Fin 0) = Inr (Fin b)"
  shows "\<exists>f' w'. stir bi t v s f w = (Some (Inr True), f', w')
           \<and> written (trace w') = written (trace w)
                @ [''OUT_SP_4 '' @ str_int n @ CRLF, (if 0 < n then ''START_4'' else ''STOP_4'') @ CRLF,
                   ''OUT_SP_4 '' @ str_int 0 @ CRLF, ''STOP_4'' @ CRLF]
           \<and> waits (trace w') = waits (trace w) @ (if 0 < a then [Fin a] else []) @ (if 0 < b then [Fin b] else [])
           \<and> stir_speed f' = Fin 0"
proof -
  from set_stir_speed_ok[OF int_float_PInt u] obtain f1 w1 where
    s1: "set_stir_speed bi (PInt n) f w = (Inr (), f1, w1)"
    and o1: "session_open (attr_cli f1)" and u1: "usable (attr_cli f1) w1"
    and t1: "trace w1 = trace w
                @ (if session_open (attr_cli f) then [] else [Setup (port (attr_cli f)) (baud (attr_cli f))])
                @ [Tx (''OUT_SP_4 '' @ str_int n @ CRLF),
                   Tx ((if 0 < n then ''START_4'' else ''STOP_4'') @ CRLF)]"
    by blast
  define w2 where "w2 = (if 0 < a then w1\<lparr>clock := clock w1 + max 0 a, trace := trace w1 @ [Wait (Fin a)]\<rparr> else w1)"
  have p1: "(if py_gt0 (Fin a) then asyncio_sleep (Fin a) w1 else Some w1) = Some w2"
    by (simp add: w2_def)
  from u1 have u2: "usable (attr_cli f1) w2" by (simp add: w2_def usable_def no_faults_def)
  have t2: "trace w2 = trace w1 @ (if 0 < a then [Wait (Fin a)] else [])" by (simp add: w2_def)
  from set_stir_speed_ok[OF int_float_PInt u2] o1 obtain f2 w3 where
    s2: "set_stir_speed bi (PInt 0) f1 w2 = (Inr (), f2, w3)"
    and u3: "usable (attr_cli f2) w3" and sp2: "attr_stir_speed f2 = Fin 0"
    and t3: "trace w3 = trace w2 @ [Tx (''OUT_SP_4 '' @ str_int 0 @ CRLF), Tx (''STOP_4'' @ CRLF)]"
    by fastforce
  define w4 where "w4 = (if 0 < b then w3\<lparr>clock := clock w3 + max 0 b, trace := trace w3 @ [Wait (Fin b)]\<rparr> else w3)"
  have p2: "(if py_gt0 (Fin b) then asyncio_sleep (Fin b) w3 else Some w3) = Some w4"
    by (simp add: w4_def)
  have t4: "trace w4 = trace w3 @ (if 0 < b then [Wait (Fin b)] else [])" by (simp add: w4_def)
  have "stir bi t v s f w = (Some (Inr True), f2, w4)"
    unfolding stir_def using ts sp st s1 p1 s2 p2 by simp
  moreover have "written (trace w4) = written (trace w)
                @ [''OUT_SP_4 '' @ str_int n @ CRLF, (if 0 < n then ''START_4'' else ''STOP_4'') @ CRLF,
                   ''OUT_SP_4 '' @ str_int 0 @ CRLF, ''STOP_4'' @ CRLF]"
    unfolding t4 t3 t2 t1 by (simp add: written_append)
  moreover have "waits (trace w4) = waits (trace w) @ (if 0 < a then [Fin a] else []) @ (if 0 < b then [Fin b] else [])"
    unfolding t4 t3 t2 t1 by (simp add: waits_append)
  ultimately show ?thesis using sp2 by (simp add: stir_speed_def)
qed


lemma set_stir_speed_error_keeps_state:
  "set_stir_speed bi v f w = (Inl e, f', w') \<Longrightarrow>
     stir_speed f' = stir_speed f \<and> temp_target f' = temp_target f \<and> attr_status f' = attr_status f"
  by (auto simp: set_stir_speed_def stir_speed_def temp_target_def
           split: sum.splits prod.splits if_splits)

lemma set_temp_target_send_error_stores:
  "py_float bi v = Inr x \<Longrightarrow> set_temp_target bi v f w = (Inl e, f', w') \<Longrightarrow> temp_target f' = x"
  by (auto simp: set_temp_target_def temp_target_def split: sum.splits prod.splits)

lemma read_loop_stop:
  "\<not> clock w < d \<Longrightarrow> in_waiting w = 0 \<Longrightarrow> read_loop d tmo buf w = (buf, w)"
  by (simp add: read_loop.simps[of d tmo buf w])

lemma ser_read_shape:
  "ser_read tmo n w = (data, w1) \<Longrightarrow>
     data = map snd (take (length data) (rx w)) \<and> rx w1 = drop (length data) (rx w)"
proof -
  assume a: "ser_read tmo n w = (data, w1)"
  then obtain now' xs' where r: "read_upto n (clock w + max 0 tmo) (clock w) (rx w) = (data, now', xs')"
    and w1: "w1 = w\<lparr>clock := now', rx := xs'\<rparr>"
    by (auto simp: ser_read_def split: prod.splits)
  from read_upto_shape[OF r] w1 show ?thesis by simp
qed

lemma read_loop_exit_collects:
  "read_loop d tmo buf w = (buf', w') \<Longrightarrow>
     d \<le> clock w' \<and> in_waiting w' = 0
     \<and> (\<exists>k. buf' = buf @ map snd (take k (rx w)) \<and> rx w' = drop k (rx w))"
proof (induction d tmo buf w arbitrary: buf' w' rule: read_loop.induct)
  case (1 d tmo buf w)
  show ?case
  proof (cases "clock w < d \<or> 0 < in_waiting w")
    case False
    with 1(3) have "buf' = buf" "w' = w" by (simp_all add: read_loop.simps[of d tmo buf w])
    moreover have "buf = buf @ map snd (take 0 (rx w)) \<and> rx w = drop 0 (rx w)" by simp
    ultimately show ?thesis using False by (metis not_less not_gr_zero)
  next
    case True
    obtain data w1 where r: "ser_read tmo (if 0 < in_waiting w then in_waiting w else 1) w = (data, w1)"
      by (cases "ser_read tmo (if 0 < in_waiting w then in_waiting w else 1) w") auto
    note sh = ser_read_shape[OF r]
    show ?thesis
    proof (cases "data = []")
      case False
      with True r 1(3) have "read_loop d tmo (buf @ data) w1 = (buf', w')"
        by (simp add: read_loop.simps[of d tmo buf w])
      from 1(1)[OF True r[symmetric] False this] obtain k where
        e: "d \<le> clock w'" "in_waiting w' = 0"
        and k: "buf' = (buf @ data) @ map snd (take k (rx w1))" "rx w' = drop k (rx w1)"
        by blast
      from sh k have "buf' = buf @ map snd (take (length data + k) (rx w))"
        by (metis append.assoc map_append take_add)
      moreover from sh k have "rx w' = drop (length data + k) (rx w)"
        by (simp add: add.commute)
      ultimately show ?thesis using e by blast
    next
      case e: True
      with True r 1(3) have rl: "read_loop d tmo buf (sleep (1 / 50) w1) = (buf', w')"
        by (simp add: read_loop.simps[of d tmo buf w])
      from e have ne: "\<not> data \<noteq> []" by simp
      from 1(2)[OF True r[symmetric] ne rl] obtain k where
        x: "d \<le> clock w'" "in_waiting w' = 0"
        and k: "buf' = buf @ map snd (take k (rx (sleep (1 / 50) w1)))" "rx w' = drop k (rx (sleep (1 / 50) w1))"
        by blast
      from sh e have "rx (sleep (1 / 50) w1) = rx w" by (simp add: sleep_def)
      with k x show ?thesis by auto
    qed
  qed
qed

lemma read_upto_arrived:
  "now \<le> dl \<Longrightarrow>
   read_upto (length (takeWhile (arrived now) xs)) dl now xs
     = (map snd (takeWhile (arrived now) xs), now, dropWhile (arrived now) xs)"
proof (induction xs)
  case Nil
  then show ?case by simp
next
  case (Cons p xs)
  obtain t b where p: "p = (t, b)" by (cases p)
  show ?case
  proof (cases "t \<le> now")
    case True
    with Cons p show ?thesis by (simp add: arrived_def max_def)
  next
    case False
    with p show ?thesis by (simp add: arrived_def)
  qed
qed

lemma read_loop_drains:
  assumes "0 < in_waiting w"
  shows "read_loop d tmo buf w =
           read_loop d tmo (buf @ map snd (takeWhile (arrived (clock w)) (rx w)))
             (w\<lparr>rx := dropWhile (arrived (clock w)) (rx w)\<rparr>)"
proof -
  have le: "clock w \<le> clock w + max 0 tmo" by simp
  have r: "ser_read tmo (in_waiting w) w =
       (map snd (takeWhile (arrived (clock w)) (rx w)), w\<lparr>rx := dropWhile (arrived (clock w)) (rx w)\<rparr>)"
    unfolding ser_read_def in_waiting_def read_upto_arrived[OF le] by simp
  from assms have "takeWhile (arrived (clock w)) (rx w) \<noteq> []" by (auto simp: in_waiting_def)
  with assms r show ?thesis by (simp add: read_loop.simps[of d tmo buf w])
qed

section \<open>The claims\<close>

subsection \<open>C4: open is idempotent\<close>

text \<open>
  C4. \<open>open()\<close> on a client whose session is open changes neither the client nor the
  world. When \<open>open()\<close> returns, the session is open, a second \<open>open()\<close> right after it
  is such a no-op, and the two calls together created one new serial session if there was
  no open session before (none if there was one).
\<close>

theorem open_cli_idempotent:
  "(session_open c \<longrightarrow> open_cli c w = (Inr (), c, w))
   \<and> (open_cli c w = (Inr u, c1, w1) \<longrightarrow>
        session_open c1 \<and> open_cli c1 w1 = (Inr (), c1, w1)
        \<and> setups (trace (snd (snd (open_cli c1 w1)))) = setups (trace w) + (if session_open c then 0 else 1))"
proof (intro conjI impI)
  assume "session_open c" then show "open_cli c w = (Inr (), c, w)" by (simp add: open_cli_def)
next
  assume a: "open_cli c w = (Inr u, c1, w1)"
  show o: "session_open c1"
  proof (cases "session_open c")
    case True with a show ?thesis by (simp add: open_cli_def)
  next
    case False
    with a obtain s w' where "Serial (port c) (baud c) (timeout c) w = (Inr s, w')" "c1 = c\<lparr>ser := Some s\<rparr>"
      by (auto simp: open_cli_def split: prod.splits sum.splits)
    with Serial_ok[OF this(1)] show ?thesis by (simp add: session_open_def)
  qed
  then show i: "open_cli c1 w1 = (Inr (), c1, w1)" by (simp add: open_cli_def)
  show "setups (trace (snd (snd (open_cli c1 w1)))) = setups (trace w) + (if session_open c then 0 else 1)"
  proof (cases "session_open c")
    case True with a i show ?thesis by (simp add: open_cli_def)
  next
    case False
    with a obtain s w' where "Serial (port c) (baud c) (timeout c) w = (Inr s, w')" "w1 = sleep (1 / 10) w'"
      by (auto simp: open_cli_def split: prod.splits sum.splits)
    with Serial_ok[OF this(1)] False i show ?thesis by (simp add: sleep_def setups_append)
  qed
qed

text \<open>C4, at a new client on port COM7 in the quiet world: the first \<open>open()\<close> creates the
  session, the second finds it, and one session was created in all.\<close>

theorem open_cli_idempotent_witness:
  "\<not> session_open (new_client ''COM7'' 9600 1) \<and>
   (\<exists>c1 w1. open_cli (new_client ''COM7'' 9600 1) quiet_world = (Inr (), c1, w1) \<and>
      session_open c1 \<and> open_cli c1 w1 = (Inr (), c1, w1) \<and>
      setups (trace (snd (snd (open_cli c1 w1)))) = 1)"
proof -
  have n: "\<not> session_open (new_client ''COM7'' 9600 1)"
    by (simp add: session_open_def new_client_def)
  obtain c1 w1 where o: "open_cli (new_client ''COM7'' 9600 1) quiet_world = (Inr (), c1, w1)"
    by (simp add: open_cli_def session_open_def new_client_def Serial_def quiet_world_def)
  have "setups (trace quiet_world) = 0" by (simp add: quiet_world_def)
  with n o open_cli_idempotent[of "new_client ''COM7'' 9600 1" quiet_world "()" c1 w1]
  show ?thesis by auto
qed

subsection \<open>C6: status is derived from the stored stir speed\<close>

text \<open>
  C6. After any sequence of \<open>set_stir_speed\<close> calls, whatever each of them returned or
  raised, \<open>status\<close> is "Idle" if the stored stir speed equals 0 and "Running" otherwise, so
  it is "Idle" exactly when the stored stir speed equals 0; and what \<open>status\<close> returns does
  not depend on the value \<^verbatim>\<open>_status\<close> holds.
\<close>

theorem status_from_stir_speed:
  "fst (status (fst (set_stir_speeds bi vs f w))) =
     (if stir_speed (fst (set_stir_speeds bi vs f w)) = Fin 0 then ''Idle'' else ''Running'')
   \<and> ((fst (status (fst (set_stir_speeds bi vs f w))) = ''Idle'') =
        (stir_speed (fst (set_stir_speeds bi vs f w)) = Fin 0))
   \<and> fst (status (g\<lparr>attr_status := s\<rparr>)) = fst (status g)"
  by (simp add: status_def stir_speed_def Let_def)

subsection \<open>C8: the vessel identifier\<close>

text \<open>
  C8 as stated fails: a vessel that is \<open>None\<close> has the identifier \<open>str(None)\<close>, the text
  "None", not the empty string.
\<close>

theorem extract_vessel_id_none_counterexample:
  "extract_vessel_id demo_builtins PNone = ''None''"
  by (simp add: extract_vessel_id_def)

text \<open>
  C8, amended. The identifier is a string for every vessel and nothing is raised. A dict
  without the key "id" gives the empty string, a dict with it gives \<open>str\<close> of the value
  stored there, and a vessel that is not a dict gives its own \<open>str\<close>: a string gives itself,
  an int its decimal text, \<open>None\<close> the text "None".
\<close>

theorem extract_vessel_id_total:
  "extract_vessel_id bi (PDict d) = (case map_of d ''id'' of None \<Rightarrow> [] | Some v \<Rightarrow> py_str bi v)
   \<and> extract_vessel_id bi (PStr s) = s
   \<and> extract_vessel_id bi (PInt n) = str_int n
   \<and> extract_vessel_id bi PNone = ''None''
   \<and> extract_vessel_id bi (PDict [(''id'', PNone)]) = ''None''
   \<and> extract_vessel_id bi (PDict []) = []"
  by (simp add: extract_vessel_id_def split: option.splits)

subsection \<open>C3: what send transmits\<close>



subsection \<open>C5: the commands of set_stir_speed\<close>



subsection \<open>C10: a negative speed\<close>

text \<open>
  C10. Whenever the speed is coerced to a negative integer \<open>n\<close> and the client is usable,
  \<open>set_stir_speed\<close> returns after sending the set-speed command with \<open>n\<close> and then
  \<open>STOP_4\<close> (not \<open>START_4\<close>); it stores \<open>float(n)\<close>, which is not 0, so \<open>status\<close> then
  reports "Running" although the motor was told to stop.
\<close>

theorem negative_speed_stops_but_runs:
  assumes "int_float bi speed = Inr n" and "n < 0" and "usable (attr_cli f) w"
  shows "\<exists>f' w'. set_stir_speed bi speed f w = (Inr (), f', w')
           \<and> written (trace w') = written (trace w) @ [''OUT_SP_4 '' @ str_int n @ CRLF, ''STOP_4'' @ CRLF]
           \<and> stir_speed f' = Fin (of_int n)
           \<and> fst (status f') = ''Running''"
proof -
  from set_stir_speed_ok[OF assms(1) assms(3)] obtain f' w' where
    r: "set_stir_speed bi speed f w = (Inr (), f', w')" and s: "attr_stir_speed f' = Fin (of_int n)"
    and t: "trace w' = trace w
                @ (if session_open (attr_cli f) then [] else [Setup (port (attr_cli f)) (baud (attr_cli f))])
                @ [Tx (''OUT_SP_4 '' @ str_int n @ CRLF),
                   Tx ((if 0 < n then ''START_4'' else ''STOP_4'') @ CRLF)]"
    by blast
  from assms(2) have "Fin (of_int n) \<noteq> Fin 0" by simp
  with s have "fst (status f') = ''Running''" by (simp add: status_def Let_def)
  with r s t assms(2) show ?thesis by (simp add: written_append stir_speed_def)
qed

text \<open>C10, at speed -5 on the facade just constructed.\<close>

theorem negative_speed_stops_but_runs_witness:
  "int_float demo_builtins (PInt (- 5)) = Inr (- 5) \<and> (- 5 :: int) < 0 \<and> usable (attr_cli demo_facade) demo_world
   \<and> (\<exists>f' w'. set_stir_speed demo_builtins (PInt (- 5)) demo_facade demo_world = (Inr (), f', w')
           \<and> written (trace w') = [''OUT_SP_4 -5'' @ CRLF, ''STOP_4'' @ CRLF]
           \<and> stir_speed f' = Fin (- 5)
           \<and> fst (status f') = ''Running'')"
proof -
  have c: "int_float demo_builtins (PInt (- 5)) = Inr (- 5)" by (simp add: int_float_def trunc_def)
  have s: "str_int (- 5) = ''-5''" by code_simp
  have w: "written (trace demo_world) = []" by (simp add: demo_world_def)
  from negative_speed_stops_but_runs[OF c _ demo_usable]
  show ?thesis unfolding s w using c demo_usable by simp
qed

subsection \<open>C7: stir always ends with a stop\<close>

text \<open>
  C7. On a usable client, \<open>stir(0, 0, 0)\<close> returns true, performs no timed wait, and the
  port receives \<open>OUT_SP_4 0\<close>, \<open>STOP_4\<close>, \<open>OUT_SP_4 0\<close>, \<open>STOP_4\<close> and nothing else.
  More generally, with finite durations and a speed coerced to \<open>n\<close>, \<open>stir\<close> returns true
  and after the commands of its stir phase (set-speed \<open>n\<close>, then start or stop) the port
  always receives \<open>OUT_SP_4 0\<close> and \<open>STOP_4\<close>, also when \<open>n\<close> is 0; it waits only for the
  durations that are greater than 0.
\<close>

theorem stir_zero_and_final_stop:
  assumes u: "usable (attr_cli f) w"
  shows "(\<exists>f' w'. stir bi (PInt 0) (PInt 0) (PInt 0) f w = (Some (Inr True), f', w')
           \<and> written (trace w') = written (trace w)
                @ [''OUT_SP_4 0'' @ CRLF, ''STOP_4'' @ CRLF, ''OUT_SP_4 0'' @ CRLF, ''STOP_4'' @ CRLF]
           \<and> waits (trace w') = waits (trace w))
       \<and> (except_VT (max0_float bi t) (Fin 0) = Inr (Fin a) \<and>
          except_VT (int_float bi v) 0 = Inr n \<and>
          except_VT (max0_float bi s) (Fin 0) = Inr (Fin b) \<longrightarrow>
          (\<exists>f' w'. stir bi t v s f w = (Some (Inr True), f', w')
           \<and> written (trace w') = written (trace w)
                @ [''OUT_SP_4 '' @ str_int n @ CRLF, (if 0 < n then ''START_4'' else ''STOP_4'') @ CRLF,
                   ''OUT_SP_4 0'' @ CRLF, ''STOP_4'' @ CRLF]
           \<and> waits (trace w') = waits (trace w) @ (if 0 < a then [Fin a] else []) @ (if 0 < b then [Fin b] else [])))"
proof (intro conjI impI)
  have z: "str_int 0 = ''0''" by code_simp
  have m: "except_VT (max0_float bi (PInt 0)) (Fin 0) = Inr (Fin 0)"
    by (simp add: except_VT_def max0_float_def py_max0_def)
  have i: "except_VT (int_float bi (PInt 0)) 0 = Inr 0"
    by (simp add: except_VT_def int_float_PInt)
  from stir_ok[OF u m i m] obtain f' w' where
    "stir bi (PInt 0) (PInt 0) (PInt 0) f w = (Some (Inr True), f', w')"
    "written (trace w') = written (trace w)
                @ [''OUT_SP_4 '' @ str_int 0 @ CRLF, ''STOP_4'' @ CRLF, ''OUT_SP_4 '' @ str_int 0 @ CRLF, ''STOP_4'' @ CRLF]"
    "waits (trace w') = waits (trace w)"
    by auto
  then show "\<exists>f' w'. stir bi (PInt 0) (PInt 0) (PInt 0) f w = (Some (Inr True), f', w')
           \<and> written (trace w') = written (trace w)
                @ [''OUT_SP_4 0'' @ CRLF, ''STOP_4'' @ CRLF, ''OUT_SP_4 0'' @ CRLF, ''STOP_4'' @ CRLF]
           \<and> waits (trace w') = waits (trace w)"
    unfolding z by simp
next
  have z: "str_int 0 = ''0''" by code_simp
  assume "except_VT (max0_float bi t) (Fin 0) = Inr (Fin a) \<and>
          except_VT (int_float bi v) 0 = Inr n \<and>
          except_VT (max0_float bi s) (Fin 0) = Inr (Fin b)"
  then have h: "except_VT (max0_float bi t) (Fin 0) = Inr (Fin a)"
    "except_VT (int_float bi v) 0 = Inr n"
    "except_VT (max0_float bi s) (Fin 0) = Inr (Fin b)" by auto
  from stir_ok[OF u h] obtain f' w' where
    "stir bi t v s f w = (Some (Inr True), f', w')"
    "written (trace w') = written (trace w)
                @ [''OUT_SP_4 '' @ str_int n @ CRLF, (if 0 < n then ''START_4'' else ''STOP_4'') @ CRLF,
                   ''OUT_SP_4 '' @ str_int 0 @ CRLF, ''STOP_4'' @ CRLF]"
    "waits (trace w') = waits (trace w) @ (if 0 < a then [Fin a] else []) @ (if 0 < b then [Fin b] else [])"
    by blast
  then show "\<exists>f' w'. stir bi t v s f w = (Some (Inr True), f', w')
           \<and> written (trace w') = written (trace w)
                @ [''OUT_SP_4 '' @ str_int n @ CRLF, (if 0 < n then ''START_4'' else ''STOP_4'') @ CRLF,
                   ''OUT_SP_4 0'' @ CRLF, ''STOP_4'' @ CRLF]
           \<and> waits (trace w') = waits (trace w) @ (if 0 < a then [Fin a] else []) @ (if 0 < b then [Fin b] else [])"
    unfolding z by simp
qed

text \<open>C7, on the facade just constructed: \<open>stir(0, 0, 0)\<close>, and \<open>stir(5, "100", 3)\<close>
  with its two waits.\<close>

theorem stir_zero_and_final_stop_witness:
  "usable (attr_cli demo_facade) demo_world
   \<and> (\<exists>f' w'. stir demo_builtins (PInt 0) (PInt 0) (PInt 0) demo_facade demo_world = (Some (Inr True), f', w')
           \<and> written (trace w') = [''OUT_SP_4 0'' @ CRLF, ''STOP_4'' @ CRLF, ''OUT_SP_4 0'' @ CRLF, ''STOP_4'' @ CRLF]
           \<and> waits (trace w') = [])
   \<and> except_VT (max0_float demo_builtins (PInt 5)) (Fin 0) = Inr (Fin 5)
   \<and> except_VT (int_float demo_builtins (PStr ''100'')) 0 = Inr 100
   \<and> except_VT (max0_float demo_builtins (PInt 3)) (Fin 0) = Inr (Fin 3)
   \<and> (\<exists>f' w'. stir demo_builtins (PInt 5) (PStr ''100'') (PInt 3) demo_facade demo_world = (Some (Inr True), f', w')
           \<and> written (trace w') = [''OUT_SP_4 100'' @ CRLF, ''START_4'' @ CRLF, ''OUT_SP_4 0'' @ CRLF, ''STOP_4'' @ CRLF]
           \<and> waits (trace w') = [Fin 5, Fin 3])"
proof -
  have a: "except_VT (max0_float demo_builtins (PInt 5)) (Fin 0) = Inr (Fin 5)"
    by (simp add: except_VT_def max0_float_def py_max0_def)
  have b: "except_VT (max0_float demo_builtins (PInt 3)) (Fin 0) = Inr (Fin 3)"
    by (simp add: except_VT_def max0_float_def py_max0_def)
  have c: "except_VT (int_float demo_builtins (PStr ''100'')) 0 = Inr 100"
    by (simp add: except_VT_def int_float_def demo_builtins_def trunc_def)
  have s: "str_int 100 = ''100''" by code_simp
  have w: "written (trace demo_world) = []" "waits (trace demo_world) = []" by (simp_all add: demo_world_def)
  from stir_zero_and_final_stop[OF demo_usable, of demo_builtins "PInt 5" 5 "PStr ''100''" 100 "PInt 3" 3]
  show ?thesis unfolding s w using a b c demo_usable by simp
qed

subsection \<open>C2: inputs that are not numbers\<close>




subsection \<open>C1: a write failure and the stored state\<close>

text \<open>
  C1 holds for \<open>set_stir_speed\<close>, which stores the speed after both sends (lemma
  \<open>set_stir_speed_error_keeps_state\<close>), and fails for \<open>set_temp_target\<close>, which stores the
  target before the first send (lemma \<open>set_temp_target_send_error_stores\<close>). On the facade
  just constructed, whose target is 20, \<open>set_temp_target(25)\<close> with a write that times out
  raises SerialTimeoutException, an IOError, writes nothing, and leaves the target at 25.
\<close>

theorem set_temp_target_write_failure:
  "(case set_temp_target demo_builtins (PInt 25) demo_facade (demo_world\<lparr>write_faults := [True]\<rparr>) of
      (r, f', w') \<Rightarrow>
        r = Inl SerialTimeoutException \<and> is_IOError SerialTimeoutException
        \<and> temp_target demo_facade = Fin 20 \<and> temp_target f' = Fin 25
        \<and> written (trace w') = [])"
  by code_simp

subsection \<open>C9: the read-until-quiet loop\<close>

text \<open>
  C9. The loop of \<open>send\<close> returns for every deadline, timeout and finite schedule of
  incoming bytes: \<open>read_loop\<close> is a total function, by the termination proof above (each
  round either takes a byte off the schedule or moves the clock on by at least the 20 ms
  sleep). When it returns, the deadline has passed and no byte is waiting, and it has
  collected a prefix of the schedule in order; when the deadline has passed and no byte
  is waiting it returns at once; and whenever bytes are waiting, also past the deadline,
  it reads them all and goes on.
\<close>

theorem read_loop_until_quiet:
  "(read_loop d tmo buf w = (buf', w') \<longrightarrow>
       d \<le> clock w' \<and> in_waiting w' = 0
       \<and> (\<exists>k. buf' = buf @ map snd (take k (rx w)) \<and> rx w' = drop k (rx w)))
   \<and> (d \<le> clock w \<and> in_waiting w = 0 \<longrightarrow> read_loop d tmo buf w = (buf, w))
   \<and> (0 < in_waiting w \<longrightarrow>
        read_loop d tmo buf w =
          read_loop d tmo (buf @ map snd (takeWhile (arrived (clock w)) (rx w)))
            (w\<lparr>rx := dropWhile (arrived (clock w)) (rx w)\<rparr>))"
proof -
  have "read_loop d tmo buf w = (buf', w') \<longrightarrow>
       d \<le> clock w' \<and> in_waiting w' = 0
       \<and> (\<exists>k. buf' = buf @ map snd (take k (rx w)) \<and> rx w' = drop k (rx w))"
    using read_loop_exit_collects by blast
  moreover have "d \<le> clock w \<and> in_waiting w = 0 \<longrightarrow> read_loop d tmo buf w = (buf, w)"
    by (simp add: read_loop_stop)
  moreover have "0 < in_waiting w \<longrightarrow>
        read_loop d tmo buf w =
          read_loop d tmo (buf @ map snd (takeWhile (arrived (clock w)) (rx w)))
            (w\<lparr>rx := dropWhile (arrived (clock w)) (rx w)\<rparr>)"
    using read_loop_drains by blast
  ultimately show ?thesis by blast
qed

text \<open>C9, one second past the deadline with two bytes waiting: the loop collects both and
  stops, leaving the byte that has not arrived.\<close>

theorem read_loop_until_quiet_witness:
  "(1::rat) \<le> clock late_world \<and> 0 < in_waiting late_world
   \<and> read_loop 1 1 [] late_world = (''OK'', late_world\<lparr>rx := [(5, CHR ''X'')]\<rparr>)
   \<and> in_waiting (late_world\<lparr>rx := [(5, CHR ''X'')]\<rparr>) = 0
   \<and> read_loop 1 1 ''OK'' (late_world\<lparr>rx := [(5, CHR ''X'')]\<rparr>)
        = (''OK'', late_world\<lparr>rx := [(5, CHR ''X'')]\<rparr>)
   \<and> read_loop 1 1 [] late_world = read_loop 1 1 ''OK'' (late_world\<lparr>rx := [(5, CHR ''X'')]\<rparr>)"
proof -
  have t: "map snd (takeWhile (arrived (clock late_world)) (rx late_world)) = ''OK''"
    "dropWhile (arrived (clock late_world)) (rx late_world) = [(5, CHR ''X'')]"
    by (simp_all add: late_world_def arrived_def)
  have c: "(1::rat) \<le> clock late_world" by (simp add: late_world_def)
  have i: "0 < in_waiting late_world" by (simp add: late_world_def in_waiting_def arrived_def)
  have e: "read_loop 1 1 [] late_world = (''OK'', late_world\<lparr>rx := [(5, CHR ''X'')]\<rparr>)"
    by code_simp
  from read_loop_until_quiet[where d=1 and tmo=1 and buf="[]" and w=late_world and buf'="''OK''"
      and w'="late_world\<lparr>rx := [(5, CHR ''X'')]\<rparr>"] e
  have q: "in_waiting (late_world\<lparr>rx := [(5, CHR ''X'')]\<rparr>) = 0"
    and d: "(1::rat) \<le> clock (late_world\<lparr>rx := [(5, CHR ''X'')]\<rparr>)" by blast+
  from read_loop_until_quiet[where d=1 and tmo=1 and buf="''OK''"
      and w="late_world\<lparr>rx := [(5, CHR ''X'')]\<rparr>"] q d
  have "read_loop 1 1 ''OK'' (late_world\<lparr>rx := [(5, CHR ''X'')]\<rparr>)
        = (''OK'', late_world\<lparr>rx := [(5, CHR ''X'')]\<rparr>)" by blast
  moreover from read_loop_until_quiet[where d=1 and tmo=1 and buf="[]" and w=late_world] i
  have "read_loop 1 1 [] late_world = read_loop 1 1 ''OK'' (late_world\<lparr>rx := [(5, CHR ''X'')]\<rparr>)"
    unfolding t by simp
  ultimately show ?thesis using c i e q by blast
qed

end
